theory Spec2Isabelle
  imports Main
begin

section \<open>The scanner character device (hw5/NewScanner.c)\<close>

text \<open>
  The driver keeps one process-wide text buffer (\<open>scanner_device.data\<close>, a NUL-terminated
  string in kmalloc'ed memory) and, per open file, a \<open>ScannerFile\<close> holding a raw pointer
  into that buffer and a private separator string. Pointers are flat kernel addresses
  (\<open>nat\<close>, 0 is \<open>NULL\<close>); they are compared as numbers, as the compiled code does.
\<close>

subsection \<open>Memory, strings and the C library\<close>

type_synonym addr = nat

definition NUL :: char where
  "NUL = CHR 0x00"

text \<open>
  The kmalloc'ed block behind \<open>scanner_device.data\<close>: its base address and its bytes.
  The driver frees the old block before it allocates the next, so at most one is live.
  Reading an address outside the live block (\<open>NULL\<close>, or memory already given back by
  \<open>kfree\<close>) has no defined result in C; the model reports it as \<open>None\<close>.
\<close>

type_synonym heap = "(addr \<times> string) option"

definition deref :: "heap \<Rightarrow> addr \<Rightarrow> char option" where
  "deref h p =
     (case h of
        None \<Rightarrow> None
      | Some (b, blk) \<Rightarrow> if b \<le> p \<and> p < b + length blk then Some (blk ! (p - b)) else None)"

text \<open>\<open>kfree(p)\<close> gives the block at \<open>p\<close> back to the allocator.\<close>

definition kfree :: "heap \<Rightarrow> addr \<Rightarrow> heap" where
  "kfree h p = (case h of None \<Rightarrow> None | Some (b, blk) \<Rightarrow> if b = p then None else h)"

text \<open>
  \<open>kmalloc(size, GFP_KERNEL)\<close>: the address is the allocator's choice (\<open>0\<close> when it
  has no memory); a request above \<open>KMALLOC_MAX_SIZE\<close> is always refused (the kernel's
  limit, 4 MiB with 4 KiB pages and the default page order).
\<close>

definition KMALLOC_MAX_SIZE :: nat where
  "KMALLOC_MAX_SIZE = 2 ^ 22"

definition kmalloc :: "addr \<Rightarrow> nat \<Rightarrow> addr" where
  "kmalloc choice n = (if n > KMALLOC_MAX_SIZE then 0 else choice)"

text \<open>\<open>strlen(p)\<close>: the number of bytes from \<open>p\<close> up to the first NUL.\<close>

definition strlen :: "heap \<Rightarrow> addr \<Rightarrow> nat option" where
  "strlen h p =
     (case h of
        None \<Rightarrow> None
      | Some (b, blk) \<Rightarrow>
          if b \<le> p \<and> p < b + length blk \<and> NUL \<in> set (drop (p - b) blk)
          then Some (length (takeWhile (\<lambda>c. c \<noteq> NUL) (drop (p - b) blk)))
          else None)"

text \<open>
  \<open>strchr(s, c) != NULL\<close> for a C string \<open>s\<close> (stored here without its terminator):
  \<open>c\<close> occurs before the first NUL of \<open>s\<close>, or \<open>c\<close> is the terminator itself.
\<close>

definition strchr :: "string \<Rightarrow> char \<Rightarrow> bool" where
  "strchr s c = (c = NUL \<or> c \<in> set (takeWhile (\<lambda>x. x \<noteq> NUL) s))"

text \<open>\<open>strcpy\<close> copies up to the first NUL.\<close>

definition strcpy :: "string \<Rightarrow> string" where
  "strcpy src = takeWhile (\<lambda>x. x \<noteq> NUL) src"

text \<open>The bytes at \<open>[p, p + n)\<close>, read by \<open>copy_to_user\<close>.\<close>

definition load :: "heap \<Rightarrow> addr \<Rightarrow> nat \<Rightarrow> string option" where
  "load h p n =
     (case h of
        None \<Rightarrow> if n = 0 then Some [] else None
      | Some (b, blk) \<Rightarrow>
          if n = 0 then Some []
          else if b \<le> p \<and> p + n \<le> b + length blk then Some (take n (drop (p - b) blk))
          else None)"

text \<open>The cast \<open>(int)x\<close> of a 64-bit size or pointer difference: the low 32 bits, signed.\<close>

definition c_int :: "nat \<Rightarrow> int" where
  "c_int n = (let m = n mod 2 ^ 32 in if m < 2 ^ 31 then int m else int m - 2 ^ 32)"

text \<open>
  \<open>copy_to_user(to, from, n)\<close> and \<open>copy_from_user\<close> return the number of bytes they
  could not copy. With \<open>n = 0\<close> that is 0; a negative \<open>int\<close> passed as the unsigned
  size is refused outright; otherwise the copy fails when the user pages fault.
\<close>

definition copy_fails :: "bool \<Rightarrow> int \<Rightarrow> bool" where
  "copy_fails user_fault n = (n < 0 \<or> (user_fault \<and> n \<noteq> 0))"

subsection \<open>Driver state\<close>

datatype error = ENOMEM | EFAULT | ENOTTY | EBADF | MemFault

text \<open>
  \<open>MemFault\<close> is not an errno: it marks a run in which the driver reads kernel memory
  it does not own. \<open>EBADF\<close> is the VFS refusing a file that is not open, before the
  driver is entered.
\<close>

record ScannerDevice =
  separators :: string
  data :: addr

record ScannerFile =
  current_token :: addr
  next_char :: addr
  separators :: string

record kernel =
  scanner_device :: ScannerDevice
  heap :: heap
  files :: "nat \<rightharpoonup> ScannerFile"

text \<open>\<open>scanner_init\<close>: the default separators; \<open>data\<close> is a zero-initialised static.\<close>

definition default_separators :: string where
  "default_separators = [CHR '' '', CHR 0x09, CHR 0x0A, CHR 0x0D, CHR 0x0C, CHR 0x0B]"

definition scanner_init :: kernel where
  "scanner_init =
     \<lparr>scanner_device = \<lparr>ScannerDevice.separators = strcpy default_separators, data = 0\<rparr>,
      heap = None, files = Map.empty\<rparr>"

subsection \<open>open and release\<close>

definition scanner_open :: "bool \<Rightarrow> bool \<Rightarrow> nat \<Rightarrow> kernel \<Rightarrow> (error + unit) \<times> kernel" where
  "scanner_open file_ok seps_ok filp s =
     (if \<not> file_ok then (Inl ENOMEM, s)
      else if \<not> seps_ok then (Inl ENOMEM, s)
      else (Inr (),
            s\<lparr>files := (files s)(filp \<mapsto>
                 \<lparr>current_token = 0,
                  next_char = data (scanner_device s),
                  separators = strcpy (ScannerDevice.separators (scanner_device s))\<rparr>)\<rparr>))"

definition scanner_release :: "nat \<Rightarrow> kernel \<Rightarrow> (error + unit) \<times> kernel" where
  "scanner_release filp s = (Inr (), s\<lparr>files := (files s)(filp := None)\<rparr>)"

subsection \<open>read\<close>

text \<open>
  \<^verbatim>\<open>while (token_start < data_end && strchr(separators, *token_start)) token_start++;\<close>
\<close>

function skip_separators :: "heap \<Rightarrow> string \<Rightarrow> addr \<Rightarrow> addr \<Rightarrow> addr option" where
  "skip_separators h seps data_end token_start =
     (if token_start < data_end then
        (case deref h token_start of
           None \<Rightarrow> None
         | Some c \<Rightarrow>
             if strchr seps c then skip_separators h seps data_end (token_start + 1)
             else Some token_start)
      else Some token_start)"
  by pat_completeness auto
termination
  by (relation "measure (\<lambda>(h, seps, data_end, p). data_end - p)") auto

text \<open>
  \<^verbatim>\<open>while (token_end < data_end && !strchr(separators, *token_end)) token_end++;\<close>
\<close>

function find_token_end :: "heap \<Rightarrow> string \<Rightarrow> addr \<Rightarrow> addr \<Rightarrow> addr option" where
  "find_token_end h seps data_end token_end =
     (if token_end < data_end then
        (case deref h token_end of
           None \<Rightarrow> None
         | Some c \<Rightarrow>
             if \<not> strchr seps c then find_token_end h seps data_end (token_end + 1)
             else Some token_end)
      else Some token_end)"
  by pat_completeness auto
termination
  by (relation "measure (\<lambda>(h, seps, data_end, p). data_end - p)") auto

declare skip_separators.simps [simp del]

declare find_token_end.simps [simp del]

text \<open>
  \<open>scanner_read(filp, buf, count, f_pos)\<close>. The result is the return value and the
  bytes copied to \<open>buf\<close>; a return value of 0 is what the caller reads as end of stream.
\<close>

definition scanner_read ::
  "bool \<Rightarrow> nat \<Rightarrow> nat \<Rightarrow> kernel \<Rightarrow> (error + int \<times> string) \<times> kernel" where
  "scanner_read user_fault filp count s =
     (case files s filp of
        None \<Rightarrow> (Inl EBADF, s)
      | Some scanner_file \<Rightarrow>
          (case strlen (heap s) (data (scanner_device s)) of
             None \<Rightarrow> (Inl MemFault, s)
           | Some n \<Rightarrow>
               let data_end = data (scanner_device s) + n in
               if current_token scanner_file \<ge> data_end then (Inr (0, []), s)
               else
                 (case skip_separators (heap s) (separators scanner_file) data_end
                         (current_token scanner_file) of
                    None \<Rightarrow> (Inl MemFault, s)
                  | Some token_start \<Rightarrow>
                      (case find_token_end (heap s) (separators scanner_file) data_end
                              token_start of
                         None \<Rightarrow> (Inl MemFault, s)
                       | Some token_end \<Rightarrow>
                           let token_len = min (c_int (token_end - token_start)) (c_int count) in
                           if copy_fails user_fault token_len then (Inl EFAULT, s)
                           else
                             (case load (heap s) token_start (nat token_len) of
                                None \<Rightarrow> (Inl MemFault, s)
                              | Some bytes \<Rightarrow>
                                  (Inr (token_len, bytes),
                                   s\<lparr>files := (files s)(filp \<mapsto>
                                        scanner_file\<lparr>current_token := token_end\<rparr>)\<rparr>))))))"

subsection \<open>write\<close>

text \<open>
  \<open>scanner_write(filp, buf, count, f_pos)\<close>, with \<open>count = length buf\<close>. The old
  buffer is freed first; then the new one is allocated, filled from user space and
  NUL-terminated, and the writer's cursor is set to its start.
\<close>

definition scanner_write ::
  "addr \<Rightarrow> bool \<Rightarrow> nat \<Rightarrow> string \<Rightarrow> kernel \<Rightarrow> (error + nat) \<times> kernel" where
  "scanner_write choice user_fault filp buf s =
     (case files s filp of
        None \<Rightarrow> (Inl EBADF, s)
      | Some scanner_file \<Rightarrow>
          let count = length buf;
              s1 = (if data (scanner_device s) \<noteq> 0
                    then s\<lparr>heap := kfree (heap s) (data (scanner_device s)),
                           scanner_device := (scanner_device s)\<lparr>data := 0\<rparr>\<rparr>
                    else s);
              p = kmalloc choice (count + 1)
          in if p = 0 then (Inl ENOMEM, s1)
             else if copy_fails user_fault (int count)
             then (Inl EFAULT, s1\<lparr>heap := None, scanner_device := (scanner_device s1)\<lparr>data := 0\<rparr>\<rparr>)
             else (Inr count,
                   s1\<lparr>heap := Some (p, buf @ [NUL]),
                       scanner_device := (scanner_device s1)\<lparr>data := p\<rparr>,
                       files := (files s1)(filp \<mapsto> scanner_file\<lparr>current_token := p\<rparr>)\<rparr>))"

subsection \<open>ioctl\<close>

text \<open>
  \<open>NewScanner.h\<close> is not among the sources; the command code is the one the test
  client defines, \<^verbatim>\<open>_IOW(SCANNER_MAGIC, 1, char *)\<close>, on a 64-bit target: direction
  \<open>write\<close> in bits 30-31, the size of a pointer in bits 16-29, the magic in bits 8-15
  and the command number in bits 0-7.
\<close>

definition SCANNER_MAGIC :: nat where
  "SCANNER_MAGIC = 113"

definition IOC_TYPE :: "nat \<Rightarrow> nat" where
  "IOC_TYPE cmd = (cmd div 2 ^ 8) mod 2 ^ 8"

definition IOC_NR :: "nat \<Rightarrow> nat" where
  "IOC_NR cmd = cmd mod 2 ^ 8"

definition SCANNER_SET_SEPARATORS :: nat where
  "SCANNER_SET_SEPARATORS = 1 * 2 ^ 30 + 8 * 2 ^ 16 + SCANNER_MAGIC * 2 ^ 8 + 1"

text \<open>
  \<open>copy_from_user(to, from, n)\<close> over an explicit user address space: all \<open>n\<close> bytes
  or a fault.
\<close>

definition copy_from_user :: "(addr \<Rightarrow> char option) \<Rightarrow> addr \<Rightarrow> nat \<Rightarrow> string option" where
  "copy_from_user user_mem src n =
     (if list_all (\<lambda>i. user_mem (src + i) \<noteq> None) [0..<n]
      then Some (map (\<lambda>i. the (user_mem (src + i))) [0..<n])
      else None)"

text \<open>
  \<open>scanner_ioctl(filp, cmd, arg)\<close>. The code uses \<open>arg\<close> both as the length of the new
  separator string and as the user address it is read from.
\<close>

definition scanner_ioctl ::
  "addr \<Rightarrow> (addr \<Rightarrow> char option) \<Rightarrow> nat \<Rightarrow> nat \<Rightarrow> nat \<Rightarrow> kernel \<Rightarrow> (error + int) \<times> kernel" where
  "scanner_ioctl choice user_mem filp cmd arg s =
     (case files s filp of
        None \<Rightarrow> (Inl EBADF, s)
      | Some scanner_file \<Rightarrow>
          if IOC_TYPE cmd \<noteq> SCANNER_MAGIC then (Inl ENOTTY, s)
          else if IOC_NR cmd > 1 then (Inl ENOTTY, s)
          else if cmd = SCANNER_SET_SEPARATORS then
            (if kmalloc choice ((arg + 1) mod 2 ^ 64) = 0 then (Inl ENOMEM, s)
             else
               (case copy_from_user user_mem arg arg of
                  None \<Rightarrow> (Inl EFAULT, s)
                | Some new_separators \<Rightarrow>
                    (Inr 0,
                     s\<lparr>files := (files s)(filp \<mapsto>
                          scanner_file\<lparr>separators := new_separators\<rparr>)\<rparr>)))
          else (Inl ENOTTY, s))"

subsection \<open>The client's read loop (hw5/TestScanner.c)\<close>

text \<open>
  \<^verbatim>\<open>while ((bytes_read = read_token(fd, read_buf, size)) > 0) print the token;\<close>
  The loop ends at the first return value that is not positive. The model runs it with
  fuel: \<open>None\<close> means the fuel ran out before the loop ended.
\<close>

fun read_tokens :: "nat \<Rightarrow> bool \<Rightarrow> nat \<Rightarrow> nat \<Rightarrow> kernel \<Rightarrow> (error + string list) option" where
  "read_tokens 0 user_fault filp count s = None"
| "read_tokens (Suc k) user_fault filp count s =
     (case scanner_read user_fault filp count s of
        (Inl e, s') \<Rightarrow> Some (Inl e)
      | (Inr (bytes_read, token), s') \<Rightarrow>
          if bytes_read > 0 then
            (case read_tokens k user_fault filp count s' of
               Some (Inr tokens) \<Rightarrow> Some (Inr (token # tokens))
             | r \<Rightarrow> r)
          else Some (Inr []))"

section \<open>The earlier per-handle driver (hw5/Scanner.c)\<close>

text \<open>
  Here every open file owns its buffer; the position is an index. The buffer is held by
  value (\<open>None\<close> is the \<open>NULL\<close> pointer), since no other handle can reach it.
  The calls that take and release the per-handle lock are left out: the model runs one
  call at a time.
\<close>

record struct_scanner_device =
  data_buffer :: "string option"
  buffer_size :: nat
  buffer_position :: nat
  separators :: string

definition dev_open :: struct_scanner_device where
  "dev_open =
     \<lparr>data_buffer = None, buffer_size = 0, buffer_position = 0,
      separators = strcpy [CHR '' '']\<rparr>"

text \<open>
  The loop of \<open>dev_read\<close>. \<open>out\<close> holds the bytes copied so far (\<open>bytes_read\<close> is its
  length); \<open>user_ok i\<close> tells whether byte \<open>i\<close> of the user's buffer can be written.
\<close>

function dev_read_loop ::
  "(nat \<Rightarrow> bool) \<Rightarrow> nat \<Rightarrow> string \<Rightarrow> struct_scanner_device \<Rightarrow> (error + string) \<times> struct_scanner_device" where
  "dev_read_loop user_ok len out dev =
     (if buffer_position dev < buffer_size dev \<and> length out < len then
        (case data_buffer dev of
           None \<Rightarrow> (Inl MemFault, dev)
         | Some buf \<Rightarrow>
             if buffer_position dev \<ge> length buf then (Inl MemFault, dev)
             else
               let current_char = buf ! buffer_position dev in
               if strchr (struct_scanner_device.separators dev) current_char then
                 (let dev' = dev\<lparr>buffer_position := buffer_position dev + 1\<rparr> in
                  if length out > 0 then (Inr out, dev')
                  else dev_read_loop user_ok len out dev')
               else if \<not> user_ok (length out) then (Inl EFAULT, dev)
               else dev_read_loop user_ok len (out @ [current_char])
                      (dev\<lparr>buffer_position := buffer_position dev + 1\<rparr>))
      else (Inr out, dev))"
  by pat_completeness auto
termination
  by (relation "measure (\<lambda>(user_ok, len, out, dev). buffer_size dev - buffer_position dev)") auto

declare dev_read_loop.simps [simp del]

definition dev_read ::
  "(nat \<Rightarrow> bool) \<Rightarrow> nat \<Rightarrow> struct_scanner_device \<Rightarrow> (error + string) \<times> struct_scanner_device" where
  "dev_read user_ok len dev =
     (if buffer_position dev \<ge> buffer_size dev \<or> data_buffer dev = None then (Inr [], dev)
      else dev_read_loop user_ok len [] dev)"

definition dev_write ::
  "bool \<Rightarrow> bool \<Rightarrow> string \<Rightarrow> struct_scanner_device \<Rightarrow> (error + nat) \<times> struct_scanner_device" where
  "dev_write alloc_ok user_fault buffer dev =
     (let len = length buffer;
          dev1 = (if data_buffer dev \<noteq> None
                  then dev\<lparr>data_buffer := None, buffer_size := 0, buffer_position := 0\<rparr>
                  else dev)
      in if \<not> alloc_ok \<or> len > KMALLOC_MAX_SIZE then (Inl ENOMEM, dev1)
         else if copy_fails user_fault (int len) then (Inl EFAULT, dev1\<lparr>data_buffer := None\<rparr>)
         else (Inr len, dev1\<lparr>data_buffer := Some buffer, buffer_size := len, buffer_position := 0\<rparr>))"

section \<open>Observing the shared buffer\<close>

text \<open>
  The text a read tokenizes: the bytes from \<open>scanner_device.data\<close> up to the first
  NUL, when \<open>data\<close> points at the live block. A handle's position is the offset of its
  \<open>current_token\<close> pointer from \<open>data\<close>.
\<close>

definition buffer_text :: "kernel \<Rightarrow> string option" where
  "buffer_text s =
     (case heap s of
        None \<Rightarrow> None
      | Some (b, blk) \<Rightarrow>
          if b = data (scanner_device s) \<and> NUL \<in> set blk
          then Some (takeWhile (\<lambda>c. c \<noteq> NUL) blk)
          else None)"

definition cursor_at :: "kernel \<Rightarrow> nat \<Rightarrow> nat \<Rightarrow> bool" where
  "cursor_at s filp pos =
     (case files s filp of
        None \<Rightarrow> False
      | Some scanner_file \<Rightarrow> current_token scanner_file = data (scanner_device s) + pos)"

definition set_cursor :: "nat \<Rightarrow> addr \<Rightarrow> kernel \<Rightarrow> kernel" where
  "set_cursor filp p s =
     (case files s filp of
        None \<Rightarrow> s
      | Some scanner_file \<Rightarrow>
          s\<lparr>files := (files s)(filp \<mapsto> scanner_file\<lparr>current_token := p\<rparr>)\<rparr>)"

text \<open>Membership in a handle's separator set, as \<open>strchr\<close> decides it on text bytes.\<close>

definition is_separator :: "kernel \<Rightarrow> nat \<Rightarrow> char \<Rightarrow> bool" where
  "is_separator s filp c =
     (case files s filp of
        None \<Rightarrow> False
      | Some scanner_file \<Rightarrow> c \<in> set (strcpy (ScannerFile.separators scanner_file)))"

text \<open>The live block, if there is one, is the one \<open>scanner_device.data\<close> points to.\<close>

definition heap_owned :: "kernel \<Rightarrow> bool" where
  "heap_owned s =
     (case heap s of
        None \<Rightarrow> True
      | Some (b, blk) \<Rightarrow> b = data (scanner_device s) \<and> b \<noteq> 0)"

section \<open>Scenarios\<close>

text \<open>Shorthands for the state left by a call whose collaborators do not fail.\<close>

definition after_open :: "nat \<Rightarrow> kernel \<Rightarrow> kernel" where
  "after_open filp s = snd (scanner_open True True filp s)"

definition after_write :: "addr \<Rightarrow> nat \<Rightarrow> string \<Rightarrow> kernel \<Rightarrow> kernel" where
  "after_write choice filp buf s = snd (scanner_write choice False filp buf s)"

definition after_read :: "nat \<Rightarrow> nat \<Rightarrow> kernel \<Rightarrow> kernel" where
  "after_read filp count s = snd (scanner_read False filp count s)"

text \<open>
  The test client's run up to its read loop: open the device, write the 15 bytes
  \<open>This is a test.\<close>
\<close>

definition test_state :: kernel where
  "test_state = after_write 4096 3 ''This is a test.'' (after_open 3 scanner_init)"

text \<open>A handle that has written \<open>hello world\<close>, in either driver.\<close>

definition hello_state :: kernel where
  "hello_state = after_write 4096 3 ''hello world'' (after_open 3 scanner_init)"

definition hello_dev :: struct_scanner_device where
  "hello_dev = snd (dev_write True False ''hello world'' dev_open)"

text \<open>A second handle opened after the test client's write.\<close>

definition joined_state :: kernel where
  "joined_state = after_open 4 test_state"

text \<open>
  Handle 4 writes \<open>x y\<close> and reads one token; then handle 3 writes \<open>abc\<close>, its
  buffer placed at \<open>choice\<close> by the allocator.
\<close>

definition stale_state :: "addr \<Rightarrow> kernel" where
  "stale_state choice =
     after_write choice 3 ''abc''
       (after_read 4 1023
          (after_write 4096 4 ''x y'' (after_open 4 (after_open 3 scanner_init))))"

text \<open>
  Handle 4 writes \<open>hello world\<close> and reads both tokens; then handle 3 writes \<open>hi\<close>
  into a block at the same address.
\<close>

definition overrun_state :: kernel where
  "overrun_state =
     after_write 4096 3 ''hi''
       (after_read 4 1023
          (after_read 4 1023
             (after_write 4096 4 ''hello world'' (after_open 4 (after_open 3 scanner_init)))))"

text \<open>A user address space holding the two bytes \<open>,;\<close> at address 2.\<close>

definition comma_mem :: "addr \<Rightarrow> char option" where
  "comma_mem a = (if a = 2 then Some CHR '','' else if a = 3 then Some CHR '';'' else None)"

section \<open>The two scanning loops over a live block\<close>

lemma skip_separators_block:
  assumes "i \<le> n" "n \<le> length blk"
  shows "skip_separators (Some (b, blk)) seps (b + n) (b + i)
         = Some (b + i + length (takeWhile (strchr seps) (take (n - i) (drop i blk))))"
  using assms
proof (induction "n - i" arbitrary: i)
  case 0
  then have "i = n" by simp
  then show ?case by (simp add: skip_separators.simps)
next
  case (Suc k)
  then have lt: "i < n" and il: "i < length blk" by simp_all
  have d: "deref (Some (b, blk)) (b + i) = Some (blk ! i)"
    using il by (simp add: deref_def)
  have tk: "take (n - i) (drop i blk) = blk ! i # take (n - Suc i) (drop (Suc i) blk)"
    using lt il by (metis Cons_nth_drop_Suc Suc_diff_Suc take_Suc_Cons)
  show ?case
  proof (cases "strchr seps (blk ! i)")
    case True
    have "skip_separators (Some (b, blk)) seps (b + n) (b + i)
          = skip_separators (Some (b, blk)) seps (b + n) (b + Suc i)"
      using lt d True by (subst skip_separators.simps) simp
    also have "\<dots> = Some (b + Suc i + length (takeWhile (strchr seps) (take (n - Suc i) (drop (Suc i) blk))))"
      using Suc.hyps(1) [of "Suc i"] Suc.hyps(2) Suc.prems lt by simp
    finally show ?thesis using True tk by simp
  next
    case False
    then show ?thesis using lt d tk by (subst skip_separators.simps) simp
  qed
qed

lemma find_token_end_block:
  assumes "i \<le> n" "n \<le> length blk"
  shows "find_token_end (Some (b, blk)) seps (b + n) (b + i)
         = Some (b + i + length (takeWhile (\<lambda>c. \<not> strchr seps c) (take (n - i) (drop i blk))))"
  using assms
proof (induction "n - i" arbitrary: i)
  case 0
  then have "i = n" by simp
  then show ?case by (simp add: find_token_end.simps)
next
  case (Suc k)
  then have lt: "i < n" and il: "i < length blk" by simp_all
  have d: "deref (Some (b, blk)) (b + i) = Some (blk ! i)"
    using il by (simp add: deref_def)
  have tk: "take (n - i) (drop i blk) = blk ! i # take (n - Suc i) (drop (Suc i) blk)"
    using lt il by (metis Cons_nth_drop_Suc Suc_diff_Suc take_Suc_Cons)
  show ?case
  proof (cases "strchr seps (blk ! i)")
    case False
    have "find_token_end (Some (b, blk)) seps (b + n) (b + i)
          = find_token_end (Some (b, blk)) seps (b + n) (b + Suc i)"
      using lt d False by (subst find_token_end.simps) simp
    also have "\<dots> = Some (b + Suc i + length (takeWhile (\<lambda>c. \<not> strchr seps c) (take (n - Suc i) (drop (Suc i) blk))))"
      using Suc.hyps(1) [of "Suc i"] Suc.hyps(2) Suc.prems lt by simp
    finally show ?thesis using False tk by simp
  next
    case True
    then show ?thesis using lt d tk by (subst find_token_end.simps) simp
  qed
qed

section \<open>What one read does\<close>

lemma c_int_small: "n < 2 ^ 31 \<Longrightarrow> c_int n = int n"
  by (simp add: c_int_def Let_def)

lemma buffer_textD:
  assumes "buffer_text s = Some view"
  obtains blk where "heap s = Some (data (scanner_device s), blk)" "NUL \<in> set blk"
    "view = takeWhile (\<lambda>c. c \<noteq> NUL) blk"
  using assms by (auto simp: buffer_text_def split: option.splits prod.splits if_splits)

lemma view_shorter: "NUL \<in> set blk \<Longrightarrow> length (takeWhile (\<lambda>c. c \<noteq> NUL) blk) < length blk"
  by (induction blk) auto

lemma take_view: "take (length (takeWhile P xs)) xs = takeWhile P xs"
  by (rule takeWhile_eq_take [symmetric])

lemma strlen_data:
  assumes "heap s = Some (data (scanner_device s), blk)" "NUL \<in> set blk"
  shows "strlen (heap s) (data (scanner_device s)) = Some (length (takeWhile (\<lambda>c. c \<noteq> NUL) blk))"
proof -
  from assms(2) have "0 < length blk" by (cases blk) auto
  then show ?thesis using assms by (simp add: strlen_def)
qed

lemma strchr_text: "c \<noteq> NUL \<Longrightarrow> strchr seps c = (c \<in> set (strcpy seps))"
  by (simp add: strchr_def strcpy_def)

lemma text_no_NUL: "c \<in> set (drop i (takeWhile (\<lambda>c. c \<noteq> NUL) blk)) \<Longrightarrow> c \<noteq> NUL"
  by (auto dest!: in_set_dropD set_takeWhileD)

lemma scanner_read_eq:
  assumes bt: "buffer_text s = Some view"
    and f: "files s filp = Some f"
    and cur: "current_token f = data (scanner_device s) + pos"
    and pos: "pos \<le> length view"
    and small: "length view < 2 ^ 31"
  shows "scanner_read uf filp count s =
    (if pos = length view then (Inr (0, []), s)
     else let S = (\<lambda>c. c \<in> set (strcpy (ScannerFile.separators f)));
              rest = drop pos view;
              tok = takeWhile (\<lambda>c. \<not> S c) (dropWhile S rest);
              token_len = min (int (length tok)) (c_int count)
          in if copy_fails uf token_len then (Inl EFAULT, s)
             else (Inr (token_len, take (nat token_len) tok),
                   s\<lparr>files := (files s)(filp \<mapsto> f\<lparr>current_token :=
                        data (scanner_device s) + pos + length (takeWhile S rest) + length tok\<rparr>)\<rparr>))"
proof -
  define b where "b = data (scanner_device s)"
  define seps where "seps = ScannerFile.separators f"
  define S where "S = (\<lambda>c. c \<in> set (strcpy seps))"
  from bt obtain blk where h: "heap s = Some (b, blk)" and nul: "NUL \<in> set blk"
    and view: "view = takeWhile (\<lambda>c. c \<noteq> NUL) blk"
    unfolding b_def by (rule buffer_textD)
  define n where "n = length view"
  have nlt: "n < length blk" unfolding n_def view using nul by (rule view_shorter)
  have sl: "strlen (heap s) (data (scanner_device s)) = Some n"
    using strlen_data [of s blk] h nul by (simp add: b_def n_def view)
  have tv: "take n blk = view" unfolding n_def view by (rule take_view)
  show ?thesis
  proof (cases "pos = n")
    case True
    then show ?thesis using f sl cur by (simp add: scanner_read_def n_def)
  next
    case False
    with pos have plt: "pos < n" by (simp add: n_def)
    define rest where "rest = drop pos view"
    define run where "run = takeWhile S rest"
    define after where "after = dropWhile S rest"
    define tok where "tok = takeWhile (\<lambda>c. \<not> S c) after"
    have seg1: "take (n - pos) (drop pos blk) = rest"
      using tv by (simp add: rest_def drop_take [symmetric])
    have nn1: "\<And>c. c \<in> set rest \<Longrightarrow> c \<noteq> NUL"
      unfolding rest_def view by (rule text_no_NUL)
    have tw1: "takeWhile (strchr seps) rest = run"
      unfolding run_def S_def
      by (rule takeWhile_cong [OF refl]) (simp add: strchr_text nn1)
    have sk: "skip_separators (heap s) seps (b + n) (b + pos) = Some (b + pos + length run)"
      using skip_separators_block [of pos n blk b seps] plt nlt h seg1 tw1 by simp
    define j where "j = pos + length run"
    have runle: "length run \<le> length rest" unfolding run_def by (rule length_takeWhile_le)
    have lrest: "length rest = n - pos" by (simp add: rest_def n_def)
    have jn: "j \<le> n" using runle lrest plt by (simp add: j_def)
    have after_eq: "after = drop j view"
      by (simp add: after_def run_def dropWhile_eq_drop rest_def j_def add.commute)
    have seg2: "take (n - j) (drop j blk) = after"
      using tv by (simp add: after_eq drop_take [symmetric])
    have nn2: "\<And>c. c \<in> set after \<Longrightarrow> c \<noteq> NUL"
      unfolding after_eq view by (rule text_no_NUL)
    have tw2: "takeWhile (\<lambda>c. \<not> strchr seps c) after = tok"
      unfolding tok_def S_def
      by (rule takeWhile_cong [OF refl]) (simp add: strchr_text nn2)
    have fe: "find_token_end (heap s) seps (b + n) (b + j) = Some (b + j + length tok)"
      using find_token_end_block [of j n blk b seps] jn nlt h seg2 tw2 by simp
    have tokle: "length tok \<le> length after" unfolding tok_def by (rule length_takeWhile_le)
    have lafter: "length after = n - j" by (simp add: after_eq n_def)
    have toksmall: "length tok < 2 ^ 31" using tokle lafter small by (simp add: n_def)
    define tl where "tl = min (int (length tok)) (c_int count)"
    have ld: "\<not> tl < 0 \<Longrightarrow> load (heap s) (b + j) (nat tl) = Some (take (nat tl) tok)"
    proof -
      assume nn: "\<not> tl < 0"
      have le: "nat tl \<le> length tok" by (simp add: tl_def)
      have inb: "b + j + nat tl \<le> b + length blk" using le tokle lafter jn nlt by simp
      have "take (nat tl) (drop j blk) = take (nat tl) (take (n - j) (drop j blk))"
        using le tokle lafter by (simp add: min_def)
      also have "\<dots> = take (nat tl) after" by (simp only: seg2)
      also have "\<dots> = take (nat tl) tok"
        unfolding tok_def using le [unfolded tok_def]
        by (metis takeWhile_eq_take take_take min.absorb1 tok_def le)
      finally show ?thesis using h inb by (simp add: load_def)
    qed
    have sk': "skip_separators (heap s) (ScannerFile.separators f)
                 (data (scanner_device s) + n) (current_token f) = Some (b + j)"
      using sk by (simp add: cur b_def seps_def j_def add.assoc)
    have fe': "find_token_end (heap s) (ScannerFile.separators f)
                 (data (scanner_device s) + n) (b + j) = Some (b + j + length tok)"
      using fe by (simp add: b_def seps_def)
    have ge: "\<not> data (scanner_device s) + n \<le> current_token f"
      using plt by (simp add: cur)
    have ci: "c_int (length tok) = int (length tok)"
      using toksmall by (rule c_int_small)
    have "scanner_read uf filp count s =
        (if copy_fails uf tl then (Inl EFAULT, s)
         else (case load (heap s) (b + j) (nat tl) of
                 None \<Rightarrow> (Inl MemFault, s)
               | Some bytes \<Rightarrow> (Inr (tl, bytes),
                   s\<lparr>files := (files s)(filp \<mapsto> f\<lparr>current_token := b + j + length tok\<rparr>)\<rparr>)))"
      unfolding scanner_read_def tl_def
      by (simp add: f sl ge sk' fe' ci Let_def)
    also have "\<dots> =
        (if copy_fails uf tl then (Inl EFAULT, s)
         else (Inr (tl, take (nat tl) tok),
               s\<lparr>files := (files s)(filp \<mapsto> f\<lparr>current_token := b + j + length tok\<rparr>)\<rparr>))"
      using ld by (auto simp: copy_fails_def)
    finally have "scanner_read uf filp count s =
        (if copy_fails uf tl then (Inl EFAULT, s)
         else (Inr (tl, take (nat tl) tok),
               s\<lparr>files := (files s)(filp \<mapsto> f\<lparr>current_token := b + j + length tok\<rparr>)\<rparr>))" .
    then show ?thesis
      using False
      by (simp add: Let_def n_def [symmetric] tl_def tok_def after_def run_def rest_def
            S_def seps_def j_def b_def add.assoc)
  qed
qed

lemma cursor_atD:
  assumes "cursor_at s filp pos"
  obtains f where "files s filp = Some f" "current_token f = data (scanner_device s) + pos"
  using assms by (auto simp: cursor_at_def split: option.splits)

lemma set_cursor_same:
  assumes "files s filp = Some f" "current_token f = p"
  shows "set_cursor filp p s = s"
proof -
  have "f\<lparr>current_token := p\<rparr> = f" using assms(2) by simp
  moreover have "(files s)(filp \<mapsto> f) = files s" using assms(1) by (rule map_upd_triv)
  ultimately show ?thesis using assms(1) by (simp add: set_cursor_def)
qed

lemma dropWhile_takeWhile_nonempty:
  "dropWhile P xs \<noteq> [] \<Longrightarrow> takeWhile (\<lambda>c. \<not> P c) (dropWhile P xs) \<noteq> []"
  by (metis (mono_tags, lifting) hd_dropWhile list.exhaust list.sel(1) list.simps(3) takeWhile.simps(2))

section \<open>Evaluating concrete runs\<close>

lemmas op_defs = after_open_def after_write_def after_read_def scanner_open_def scanner_write_def
  scanner_init_def kmalloc_def KMALLOC_MAX_SIZE_def copy_fails_def kfree_def strcpy_def
  default_separators_def NUL_def Let_def

lemmas read_defs = scanner_read_def strlen_def deref_def load_def c_int_def copy_fails_def
  skip_separators.simps find_token_end.simps strchr_def default_separators_def NUL_def Let_def

lemma read_tokens_numeral:
  "read_tokens (numeral k) user_fault filp count s =
     read_tokens (Suc (pred_numeral k)) user_fault filp count s"
  by (simp only: numeral_eq_Suc)

lemma test_state_eq:
  "test_state =
     \<lparr>scanner_device = \<lparr>ScannerDevice.separators = default_separators, data = 4096\<rparr>,
      heap = Some (4096, ''This is a test.'' @ [NUL]),
      files = [3 \<mapsto> \<lparr>current_token = 4096, next_char = 0,
                       separators = default_separators\<rparr>]\<rparr>"
  by (simp add: test_state_def op_defs)

lemma test_state_cursor:
  "set_cursor 3 c test_state =
     \<lparr>scanner_device = \<lparr>ScannerDevice.separators = default_separators, data = 4096\<rparr>,
      heap = Some (4096, ''This is a test.'' @ [NUL]),
      files = [3 \<mapsto> \<lparr>current_token = c, next_char = 0,
                       separators = default_separators\<rparr>]\<rparr>"
  by (simp add: test_state_eq set_cursor_def)

lemma test_view: "buffer_text test_state = Some ''This is a test.''"
  by (simp add: test_state_eq buffer_text_def NUL_def)

lemma test_cursor: "cursor_at test_state 3 0"
  by (simp add: test_state_eq cursor_at_def)

lemma test_separators: "is_separator test_state 3 = (\<lambda>c. c \<in> set default_separators)"
  by (simp add: is_separator_def test_state_eq strcpy_def default_separators_def NUL_def
        fun_eq_iff)

lemma test_data: "data (scanner_device test_state) = 4096"
  by (simp add: test_state_eq)

lemma hello_state_eq:
  "hello_state =
     \<lparr>scanner_device = \<lparr>ScannerDevice.separators = default_separators, data = 4096\<rparr>,
      heap = Some (4096, ''hello world'' @ [NUL]),
      files = [3 \<mapsto> \<lparr>current_token = 4096, next_char = 0,
                       separators = default_separators\<rparr>]\<rparr>"
  by (simp add: hello_state_def op_defs)

lemma joined_state_eq:
  "joined_state =
     \<lparr>scanner_device = \<lparr>ScannerDevice.separators = default_separators, data = 4096\<rparr>,
      heap = Some (4096, ''This is a test.'' @ [NUL]),
      files = [3 \<mapsto> \<lparr>current_token = 4096, next_char = 0,
                       separators = default_separators\<rparr>,
               4 \<mapsto> \<lparr>current_token = 0, next_char = 4096,
                       separators = default_separators\<rparr>]\<rparr>"
  by (simp add: joined_state_def test_state_eq after_open_def scanner_open_def strcpy_def
        default_separators_def NUL_def)

lemma stale_before:
  "after_read 4 1023 (after_write 4096 4 ''x y'' (after_open 4 (after_open 3 scanner_init))) =
     \<lparr>scanner_device = \<lparr>ScannerDevice.separators = default_separators, data = 4096\<rparr>,
      heap = Some (4096, ''x y'' @ [NUL]),
      files = [3 \<mapsto> \<lparr>current_token = 0, next_char = 0, separators = default_separators\<rparr>,
               4 \<mapsto> \<lparr>current_token = 4097, next_char = 0,
                       separators = default_separators\<rparr>]\<rparr>"
proof -
  have w: "after_write 4096 4 ''x y'' (after_open 4 (after_open 3 scanner_init)) =
     \<lparr>scanner_device = \<lparr>ScannerDevice.separators = default_separators, data = 4096\<rparr>,
      heap = Some (4096, ''x y'' @ [NUL]),
      files = [3 \<mapsto> \<lparr>current_token = 0, next_char = 0, separators = default_separators\<rparr>,
               4 \<mapsto> \<lparr>current_token = 4096, next_char = 0,
                       separators = default_separators\<rparr>]\<rparr>"
    by (simp add: op_defs)
  show ?thesis unfolding w by (simp add: after_read_def read_defs)
qed

lemma stale_state_eq:
  "choice \<noteq> 0 \<Longrightarrow> stale_state choice =
     \<lparr>scanner_device = \<lparr>ScannerDevice.separators = default_separators, data = choice\<rparr>,
      heap = Some (choice, ''abc'' @ [NUL]),
      files = [3 \<mapsto> \<lparr>current_token = choice, next_char = 0, separators = default_separators\<rparr>,
               4 \<mapsto> \<lparr>current_token = 4097, next_char = 0,
                       separators = default_separators\<rparr>]\<rparr>"
  unfolding stale_state_def stale_before
  by (simp add: after_write_def scanner_write_def kmalloc_def KMALLOC_MAX_SIZE_def
        copy_fails_def kfree_def Let_def fun_upd_twist)

lemma overrun_state_eq:
  "overrun_state =
     \<lparr>scanner_device = \<lparr>ScannerDevice.separators = default_separators, data = 4096\<rparr>,
      heap = Some (4096, ''hi'' @ [NUL]),
      files = [3 \<mapsto> \<lparr>current_token = 4096, next_char = 0, separators = default_separators\<rparr>,
               4 \<mapsto> \<lparr>current_token = 4107, next_char = 0,
                       separators = default_separators\<rparr>]\<rparr>"
proof -
  have w: "after_write 4096 4 ''hello world'' (after_open 4 (after_open 3 scanner_init)) =
     \<lparr>scanner_device = \<lparr>ScannerDevice.separators = default_separators, data = 4096\<rparr>,
      heap = Some (4096, ''hello world'' @ [NUL]),
      files = [3 \<mapsto> \<lparr>current_token = 0, next_char = 0, separators = default_separators\<rparr>,
               4 \<mapsto> \<lparr>current_token = 4096, next_char = 0,
                       separators = default_separators\<rparr>]\<rparr>"
    by (simp add: op_defs)
  have r1: "after_read 4 1023 (after_write 4096 4 ''hello world'' (after_open 4 (after_open 3 scanner_init))) =
     \<lparr>scanner_device = \<lparr>ScannerDevice.separators = default_separators, data = 4096\<rparr>,
      heap = Some (4096, ''hello world'' @ [NUL]),
      files = [3 \<mapsto> \<lparr>current_token = 0, next_char = 0, separators = default_separators\<rparr>,
               4 \<mapsto> \<lparr>current_token = 4101, next_char = 0,
                       separators = default_separators\<rparr>]\<rparr>"
    unfolding w by (simp add: after_read_def read_defs)
  have r2: "after_read 4 1023 (after_read 4 1023 (after_write 4096 4 ''hello world'' (after_open 4 (after_open 3 scanner_init)))) =
     \<lparr>scanner_device = \<lparr>ScannerDevice.separators = default_separators, data = 4096\<rparr>,
      heap = Some (4096, ''hello world'' @ [NUL]),
      files = [3 \<mapsto> \<lparr>current_token = 0, next_char = 0, separators = default_separators\<rparr>,
               4 \<mapsto> \<lparr>current_token = 4107, next_char = 0,
                       separators = default_separators\<rparr>]\<rparr>"
    unfolding r1 by (simp add: after_read_def read_defs)
  show ?thesis
    unfolding overrun_state_def r2
    by (simp add: after_write_def scanner_write_def kmalloc_def KMALLOC_MAX_SIZE_def
        copy_fails_def kfree_def Let_def fun_upd_twist)
qed

lemma upt_0_2: "[0..<2] = [0, Suc 0]"
  by (simp add: numeral_2_eq_2)

lemmas ioctl_defs = upt_0_2 scanner_ioctl_def IOC_TYPE_def IOC_NR_def SCANNER_MAGIC_def
  SCANNER_SET_SEPARATORS_def kmalloc_def KMALLOC_MAX_SIZE_def copy_from_user_def comma_mem_def

lemmas dev_defs = hello_dev_def dev_write_def dev_open_def dev_read_def dev_read_loop.simps
  KMALLOC_MAX_SIZE_def copy_fails_def strchr_def strcpy_def NUL_def Let_def

lemma dev_read_continues_mid_token:
  "fst (dev_read (\<lambda>i. True) 2 hello_dev) = Inr ''he''
   \<and> fst (dev_read (\<lambda>i. True) 1023 (snd (dev_read (\<lambda>i. True) 2 hello_dev))) = Inr ''llo''"
  by (simp add: dev_defs)

lemma dev_write_failure_drops_buffer:
  "fst (dev_write alloc_ok user_fault buffer dev) = Inl e \<Longrightarrow>
   data_buffer (snd (dev_write alloc_ok user_fault buffer dev)) = None"
  by (auto simp: dev_write_def Let_def split: if_splits)

lemma open_default_separators:
  "ScannerDevice.separators (scanner_device s) = default_separators \<Longrightarrow>
   files (after_open filp s) filp =
     Some \<lparr>current_token = 0, next_char = data (scanner_device s),
           separators = default_separators\<rparr>"
  by (simp add: after_open_def scanner_open_def strcpy_def default_separators_def NUL_def)

section \<open>What one write does\<close>

lemma scanner_write_ok:
  assumes f: "files s filp = Some f"
    and ch: "choice \<noteq> 0"
    and len: "length buf < KMALLOC_MAX_SIZE"
    and cp: "\<not> copy_fails user_fault (int (length buf))"
  shows "scanner_write choice user_fault filp buf s =
     (Inr (length buf),
      s\<lparr>heap := Some (choice, buf @ [NUL]),
        scanner_device := (scanner_device s)\<lparr>data := choice\<rparr>,
        files := (files s)(filp \<mapsto> f\<lparr>current_token := choice\<rparr>)\<rparr>)"
  using assms by (simp add: scanner_write_def kmalloc_def Let_def)

lemma takeWhile_NUL_append: "takeWhile (\<lambda>c. c \<noteq> NUL) (buf @ [NUL]) = takeWhile (\<lambda>c. c \<noteq> NUL) buf"
  by (induction buf) auto

lemma written_view:
  assumes "heap s = Some (data (scanner_device s), buf @ [NUL])"
  shows "buffer_text s = Some (strcpy buf)"
  using assms by (simp add: buffer_text_def strcpy_def takeWhile_NUL_append)

lemma write_resets_writer:
  "scanner_write choice user_fault filp buf s = (Inr m, s') \<Longrightarrow> cursor_at s' filp 0"
  by (auto simp: scanner_write_def Let_def cursor_at_def split: option.splits if_splits)

section \<open>Cursor movement\<close>

lemma skip_separators_bounds:
  "skip_separators h seps e p = Some q \<Longrightarrow> p \<le> q \<and> q \<le> max p e"
proof (induction h seps e p rule: skip_separators.induct)
  case (1 h seps e p)
  show ?case
  proof (cases "p < e")
    case False
    with "1.prems" show ?thesis by (subst (asm) skip_separators.simps) simp
  next
    case True
    from "1.prems" True obtain c where c: "deref h p = Some c"
      by (subst (asm) skip_separators.simps) (auto split: option.splits)
    show ?thesis
    proof (cases "strchr seps c")
      case no: False
      with "1.prems" True c show ?thesis by (subst (asm) skip_separators.simps) simp
    next
      case yes: True
      with "1.prems" True c have "skip_separators h seps e (p + 1) = Some q"
        by (subst (asm) skip_separators.simps) simp
      from "1.IH" [OF True c yes this] True show ?thesis by simp
    qed
  qed
qed

lemma find_token_end_bounds:
  "find_token_end h seps e p = Some q \<Longrightarrow> p \<le> q \<and> q \<le> max p e"
proof (induction h seps e p rule: find_token_end.induct)
  case (1 h seps e p)
  show ?case
  proof (cases "p < e")
    case False
    with "1.prems" show ?thesis by (subst (asm) find_token_end.simps) simp
  next
    case True
    from "1.prems" True obtain c where c: "deref h p = Some c"
      by (subst (asm) find_token_end.simps) (auto split: option.splits)
    show ?thesis
    proof (cases "\<not> strchr seps c")
      case no: False
      with "1.prems" True c show ?thesis by (subst (asm) find_token_end.simps) simp
    next
      case yes: True
      with "1.prems" True c have "find_token_end h seps e (p + 1) = Some q"
        by (subst (asm) find_token_end.simps) simp
      from "1.IH" [OF True c yes this] True show ?thesis by simp
    qed
  qed
qed

lemma buffer_text_files: "buffer_text (s\<lparr>files := x\<rparr>) = buffer_text s"
  by (simp add: buffer_text_def split: option.splits)

lemma read_tokens_segments:
  assumes small: "length view < 2 ^ 31" and cnt: "length view \<le> count" "count < 2 ^ 31"
  shows "buffer_text s = Some view \<Longrightarrow> cursor_at s filp pos \<Longrightarrow> pos \<le> length view
     \<Longrightarrow> length view - pos < fuel \<Longrightarrow> is_separator s filp = S
     \<Longrightarrow> \<exists>segs final.
           read_tokens fuel False filp count s = Some (Inr (map snd segs))
         \<and> concat (map (\<lambda>(skipped, token). skipped @ token) segs) @ final = drop pos view
         \<and> (\<forall>(skipped, token) \<in> set segs.
               (\<forall>c \<in> set skipped. S c) \<and> token \<noteq> [] \<and> (\<forall>c \<in> set token. \<not> S c))
         \<and> (\<forall>c \<in> set final. S c)"
proof (induction fuel arbitrary: s pos)
  case 0
  then show ?case by simp
next
  case (Suc k)
  from Suc.prems(2) obtain f where f: "files s filp = Some f"
    and cur: "current_token f = data (scanner_device s) + pos" by (rule cursor_atD)
  have S: "S = (\<lambda>c. c \<in> set (strcpy (ScannerFile.separators f)))"
    using Suc.prems(5) by (simp add: is_separator_def f fun_eq_iff)
  define rest where "rest = drop pos view"
  define run where "run = takeWhile S rest"
  define after where "after = dropWhile S rest"
  define tok where "tok = takeWhile (\<lambda>c. \<not> S c) after"
  note eq = scanner_read_eq [OF Suc.prems(1) f cur Suc.prems(3) small, of False count,
      folded S, unfolded Let_def, folded rest_def, folded after_def run_def, folded tok_def]
  show ?case
  proof (cases "pos = length view")
    case True
    then have "read_tokens (Suc k) False filp count s = Some (Inr (map snd []))"
      using eq by simp
    moreover have "drop pos view = []" using True by simp
    ultimately show ?thesis by (intro exI [of _ "[]"]) simp
  next
    case False
    have tokle: "length tok \<le> length view"
    proof -
      have "length tok \<le> length after" unfolding tok_def by (rule length_takeWhile_le)
      also have "\<dots> \<le> length rest" unfolding after_def by (rule length_dropWhile_le)
      also have "\<dots> \<le> length view" by (simp add: rest_def)
      finally show ?thesis .
    qed
    have m: "min (int (length tok)) (c_int count) = int (length tok)"
      using tokle cnt by (simp add: c_int_small)
    define s' where "s' = s\<lparr>files := (files s)(filp \<mapsto> f\<lparr>current_token :=
                        data (scanner_device s) + pos + length run + length tok\<rparr>)\<rparr>"
    have rd: "scanner_read False filp count s = (Inr (int (length tok), tok), s')"
      using eq False m by (simp add: copy_fails_def s'_def)
    have runS: "\<forall>c \<in> set run. S c" unfolding run_def by (auto dest: set_takeWhileD)
    have tokS: "\<forall>c \<in> set tok. \<not> S c" unfolding tok_def by (auto dest: set_takeWhileD)
    have split1: "rest = run @ after" by (simp add: run_def after_def)
    show ?thesis
    proof (cases "tok = []")
      case True
      have "after = []"
      proof (rule ccontr)
        assume "after \<noteq> []"
        then have "tok \<noteq> []" unfolding tok_def after_def by (rule dropWhile_takeWhile_nonempty)
        with True show False by simp
      qed
      then have "rest = run" using split1 by simp
      moreover have "read_tokens (Suc k) False filp count s = Some (Inr (map snd []))"
        using rd True by simp
      ultimately show ?thesis using runS
        by (intro exI [of _ "[]"] exI [of _ run]) (simp add: rest_def)
    next
      case ne: False
      define pos' where "pos' = pos + length run + length tok"
      have lens: "length run + length after = length view - pos"
        using split1 by (metis length_append length_drop rest_def)
      have tokle': "length tok \<le> length after" unfolding tok_def by (rule length_takeWhile_le)
      have p'le: "pos' \<le> length view" using lens tokle' Suc.prems(3) by (simp add: pos'_def)
      have tokpos: "0 < length tok" using ne by simp
      have fuel: "length view - pos' < k"
        using Suc.prems(4) tokpos p'le unfolding pos'_def by arith
      have bt': "buffer_text s' = Some view"
        using Suc.prems(1) by (simp add: buffer_text_files s'_def)
      have ca': "cursor_at s' filp pos'" by (simp add: cursor_at_def s'_def pos'_def)
      have sep': "is_separator s' filp = S"
        by (simp add: is_separator_def s'_def S fun_eq_iff)
      from Suc.IH [OF bt' ca' p'le fuel sep'] obtain segs final where
        rt: "read_tokens k False filp count s' = Some (Inr (map snd segs))"
        and cc: "concat (map (\<lambda>(skipped, token). skipped @ token) segs) @ final = drop pos' view"
        and ss: "\<forall>(skipped, token) \<in> set segs.
               (\<forall>c \<in> set skipped. S c) \<and> token \<noteq> [] \<and> (\<forall>c \<in> set token. \<not> S c)"
        and fs: "\<forall>c \<in> set final. S c"
        by blast
      have split2: "after = tok @ drop (length tok) after"
        unfolding tok_def by (metis takeWhile_dropWhile_id dropWhile_eq_drop)
      have "drop pos' view = drop (length run + length tok) rest"
        by (simp add: pos'_def rest_def add.commute add.left_commute)
      also have "\<dots> = drop (length tok) after"
        using split1 by (simp add: drop_append add.commute [of "length run"] flip: drop_drop)
      finally have dp: "drop pos' view = drop (length tok) after" .
      have whole: "run @ tok @ drop pos' view = drop pos view"
        using split1 split2 dp by (simp add: rest_def [symmetric])
      have "read_tokens (Suc k) False filp count s = Some (Inr (map snd ((run, tok) # segs)))"
        using rd rt ne by simp
      moreover have "concat (map (\<lambda>(skipped, token). skipped @ token) ((run, tok) # segs)) @ final
            = drop pos view"
        using cc whole by simp
      moreover have "\<forall>(skipped, token) \<in> set ((run, tok) # segs).
               (\<forall>c \<in> set skipped. S c) \<and> token \<noteq> [] \<and> (\<forall>c \<in> set token. \<not> S c)"
        using ss runS tokS ne by simp
      ultimately show ?thesis using fs by blast
    qed
  qed
qed

section \<open>The tokenizer\<close>

text \<open>
  C4. From any position within the buffer text, a read first skips every byte that is a
  member of the handle's separator set, then takes the maximal run of non-separator
  bytes as the token. When the skip reaches the end of the text (also when a separator
  run ends it) the read returns 0, the end-of-stream value, with the cursor at the end;
  otherwise the token is not empty, so runs of separators never yield empty tokens; and
  with an empty separator set the token is the whole remaining text. The token is
  delivered whole when the request is at least as long as the token.
\<close>

theorem next_token_skips_then_collects:
  assumes "buffer_text s = Some view"
    and "cursor_at s filp pos"
    and "pos \<le> length view"
    and "length view < 2 ^ 31"
    and "count < 2 ^ 31"
  shows
    "let rest = drop pos view;
         after = dropWhile (is_separator s filp) rest;
         token = takeWhile (\<lambda>c. \<not> is_separator s filp c) after
     in (after = [] \<longrightarrow>
           scanner_read user_fault filp count s =
             (Inr (0, []), set_cursor filp (data (scanner_device s) + length view) s))
      \<and> (after \<noteq> [] \<longrightarrow> token \<noteq> [] \<and>
           (length token \<le> count \<and> \<not> user_fault \<longrightarrow>
              scanner_read user_fault filp count s =
                (Inr (int (length token), token),
                 set_cursor filp (data (scanner_device s) + pos
                    + length (takeWhile (is_separator s filp) rest) + length token) s)))
      \<and> ((\<forall>c. \<not> is_separator s filp c) \<longrightarrow> token = rest)"
proof -
  from assms(2) obtain f where f: "files s filp = Some f"
    and cur: "current_token f = data (scanner_device s) + pos" by (rule cursor_atD)
  define S where "S = (\<lambda>c. c \<in> set (strcpy (ScannerFile.separators f)))"
  have isS: "is_separator s filp = S" by (simp add: is_separator_def f S_def fun_eq_iff)
  define rest where "rest = drop pos view"
  define after where "after = dropWhile S rest"
  define token where "token = takeWhile (\<lambda>c. \<not> S c) after"
  note eq = scanner_read_eq [OF assms(1) f cur assms(3) assms(4), of user_fault count,
      folded S_def, unfolded Let_def, folded rest_def, folded after_def, folded token_def]
  have split: "takeWhile S rest @ after = rest" by (simp add: after_def)
  have lens: "length (takeWhile S rest) + length after = length rest"
    by (metis split length_append)
  have lrest: "length rest = length view - pos" by (simp add: rest_def)
  have a: "scanner_read user_fault filp count s =
             (Inr (0, []), set_cursor filp (data (scanner_device s) + length view) s)"
    if emp: "after = []"
  proof (cases "pos = length view")
    case True
    then show ?thesis using eq set_cursor_same [OF f] cur by simp
  next
    case False
    have "token = []" using emp by (simp add: token_def)
    moreover have "length (takeWhile S rest) = length view - pos" using lens emp lrest by simp
    moreover have "c_int count = int count" using assms(5) by (rule c_int_small)
    ultimately show ?thesis using eq False assms(3) f
      by (simp add: copy_fails_def set_cursor_def)
  qed
  have b1: "token \<noteq> []" if "after \<noteq> []"
    using that unfolding token_def after_def by (rule dropWhile_takeWhile_nonempty)
  have b2: "scanner_read user_fault filp count s =
                (Inr (int (length token), token),
                 set_cursor filp (data (scanner_device s) + pos
                    + length (takeWhile S rest) + length token) s)"
    if ne: "after \<noteq> []" and c: "length token \<le> count" "\<not> user_fault"
  proof -
    have "pos \<noteq> length view" using ne by (auto simp: after_def rest_def)
    moreover have "min (int (length token)) (c_int count) = int (length token)"
      using c assms(5) by (simp add: c_int_small)
    ultimately show ?thesis using eq c f by (simp add: copy_fails_def set_cursor_def)
  qed
  have c: "token = rest" if "\<forall>c. \<not> S c"
    using that by (simp add: token_def after_def)
  show ?thesis
    unfolding Let_def isS
    using a b1 b2 c
    by (simp only: rest_def [symmetric] after_def [symmetric] token_def [symmetric]) auto
qed

theorem next_token_skips_then_collects_witness:
  "buffer_text test_state = Some ''This is a test.'' \<and> cursor_at test_state 3 0
   \<and> (0::nat) \<le> length ''This is a test.'' \<and> length ''This is a test.'' < (2::nat) ^ 31
   \<and> (1023::nat) < 2 ^ 31
   \<and> scanner_read False 3 1023 test_state = (Inr (4, ''This''), set_cursor 3 4100 test_state)"
  using next_token_skips_then_collects [OF test_view test_cursor, of 1023 False]
  by (simp add: test_view test_cursor test_separators test_data default_separators_def Let_def)

text \<open>
  C5. Running the client's read loop from the start of a buffer holding the byte
  sequence \<open>B\<close> ends with the end-of-stream return after finitely many reads, and the
  tokens it delivered, each preceded by a run of separator bytes and the last followed by
  one, concatenate to \<open>B\<close> exactly. Every token is a non-empty run without separators
  and every run in between consists of separators only, so the decomposition is the
  tokenization of \<open>B\<close>.
\<close>

theorem tokens_and_separator_runs_rebuild_text:
  assumes "buffer_text s = Some B"
    and "cursor_at s filp 0"
    and "length B \<le> count"
    and "count < 2 ^ 31"
  shows "\<exists>segs final.
           read_tokens (Suc (length B)) False filp count s = Some (Inr (map snd segs))
         \<and> concat (map (\<lambda>(skipped, token). skipped @ token) segs) @ final = B
         \<and> (\<forall>(skipped, token) \<in> set segs.
               (\<forall>c \<in> set skipped. is_separator s filp c) \<and> token \<noteq> []
               \<and> (\<forall>c \<in> set token. \<not> is_separator s filp c))
         \<and> (\<forall>c \<in> set final. is_separator s filp c)"
proof -
  have small: "length B < 2 ^ 31" using assms(3,4) by simp
  from read_tokens_segments [OF small assms(3) assms(4) assms(1) assms(2), of "Suc (length B)"
      "is_separator s filp"]
  show ?thesis by simp
qed

theorem tokens_and_separator_runs_rebuild_text_witness:
  "buffer_text test_state = Some ''This is a test.'' \<and> cursor_at test_state 3 0
   \<and> length ''This is a test.'' \<le> (1023::nat) \<and> (1023::nat) < 2 ^ 31
   \<and> (\<exists>segs final.
           read_tokens (Suc (length ''This is a test.'')) False 3 1023 test_state
             = Some (Inr (map snd segs))
         \<and> concat (map (\<lambda>(skipped, token). skipped @ token) segs) @ final = ''This is a test.''
         \<and> (\<forall>(skipped, token) \<in> set segs.
               (\<forall>c \<in> set skipped. is_separator test_state 3 c) \<and> token \<noteq> []
               \<and> (\<forall>c \<in> set token. \<not> is_separator test_state 3 c))
         \<and> (\<forall>c \<in> set final. is_separator test_state 3 c))"
  using tokens_and_separator_runs_rebuild_text [OF test_view test_cursor, of 1023]
  by (simp add: test_view test_cursor)

section \<open>The test client's run\<close>

lemma test_read_1: "scanner_read False 3 1023 test_state = (Inr (4, ''This''), set_cursor 3 4100 test_state)"
  by (simp add: test_state_cursor) (simp add: test_state_eq read_defs)

lemma test_read_2: "scanner_read False 3 1023 (set_cursor 3 4100 test_state) = (Inr (2, ''is''), set_cursor 3 4103 test_state)"
  by (simp add: test_state_cursor read_defs)

lemma test_read_3: "scanner_read False 3 1023 (set_cursor 3 4103 test_state) = (Inr (1, ''a''), set_cursor 3 4105 test_state)"
  by (simp add: test_state_cursor read_defs)

lemma test_read_4: "scanner_read False 3 1023 (set_cursor 3 4105 test_state) = (Inr (5, ''test.''), set_cursor 3 4111 test_state)"
  by (simp add: test_state_cursor read_defs)

lemma test_read_5: "scanner_read False 3 1023 (set_cursor 3 4111 test_state) = (Inr (0, []), set_cursor 3 4111 test_state)"
  by (simp add: test_state_cursor read_defs)

text \<open>
  C6. Writing the 15 bytes \<open>This is a test.\<close> and running the read loop with the
  default separators delivers \<open>This\<close>, \<open>is\<close>, \<open>a\<close>, \<open>test.\<close> in this order, and
  the fifth read returns 0, the end-of-stream value.
\<close>

theorem test_text_tokens:
  "length ''This is a test.'' = 15
   \<and> fst (scanner_write 4096 False 3 ''This is a test.'' (after_open 3 scanner_init)) = Inr 15
   \<and> read_tokens 5 False 3 1023 test_state = Some (Inr [''This'', ''is'', ''a'', ''test.''])
   \<and> fst (scanner_read False 3 1023 (set_cursor 3 4111 test_state)) = Inr (0, [])"
proof -
  have w: "fst (scanner_write 4096 False 3 ''This is a test.'' (after_open 3 scanner_init)) = Inr 15"
    by (simp add: op_defs)
  have e5: "\<And>k. read_tokens (Suc k) False 3 1023 (set_cursor 3 4111 test_state) = Some (Inr [])"
    by (simp add: test_read_5)
  have e4: "\<And>k. read_tokens (Suc (Suc k)) False 3 1023 (set_cursor 3 4105 test_state)
              = Some (Inr [''test.''])"
    by (subst read_tokens.simps) (simp add: test_read_4 e5 del: read_tokens.simps)
  have e3: "\<And>k. read_tokens (Suc (Suc (Suc k))) False 3 1023 (set_cursor 3 4103 test_state)
              = Some (Inr [''a'', ''test.''])"
    by (subst read_tokens.simps) (simp add: test_read_3 e4 del: read_tokens.simps)
  have e2: "\<And>k. read_tokens (Suc (Suc (Suc (Suc k)))) False 3 1023 (set_cursor 3 4100 test_state)
              = Some (Inr [''is'', ''a'', ''test.''])"
    by (subst read_tokens.simps) (simp add: test_read_2 e3 del: read_tokens.simps)
  have e1: "read_tokens (Suc (Suc (Suc (Suc (Suc 0))))) False 3 1023 test_state
              = Some (Inr [''This'', ''is'', ''a'', ''test.''])"
    by (subst read_tokens.simps) (simp add: test_read_1 e2 del: read_tokens.simps)
  have five: "(5::nat) = Suc (Suc (Suc (Suc (Suc 0))))" by simp
  have r: "read_tokens 5 False 3 1023 test_state = Some (Inr [''This'', ''is'', ''a'', ''test.''])"
    unfolding five by (rule e1)
  show ?thesis using w r test_read_5 by simp
qed

section \<open>Requests shorter than the token\<close>

text \<open>
  C2. A read of 2 bytes from \<open>hello world\<close> delivers \<open>he\<close>, but the cursor is set to
  the end of the whole token (offset 5), so the following read delivers \<open>world\<close>: the
  rest of the first token, \<open>llo\<close>, is never delivered. The earlier driver's
  \<open>dev_read\<close> does continue inside the token (\<open>dev_read_continues_mid_token\<close>).
\<close>

theorem truncated_read_drops_rest_of_token:
  "fst (scanner_read False 3 2 hello_state) = Inr (2, ''he'')
   \<and> cursor_at (after_read 3 2 hello_state) 3 5
   \<and> fst (scanner_read False 3 1023 (after_read 3 2 hello_state)) = Inr (5, ''world'')"
proof -
  have r: "scanner_read False 3 2 hello_state = (Inr (2, ''he''), set_cursor 3 4101 hello_state)"
    by (simp add: hello_state_eq read_defs set_cursor_def)
  have a: "after_read 3 2 hello_state = set_cursor 3 4101 hello_state"
    by (simp add: after_read_def r)
  have c: "cursor_at (set_cursor 3 4101 hello_state) 3 5"
    by (simp add: hello_state_eq set_cursor_def cursor_at_def)
  have n: "fst (scanner_read False 3 1023 (set_cursor 3 4101 hello_state)) = Inr (5, ''world'')"
    by (simp add: hello_state_eq set_cursor_def read_defs)
  show ?thesis using r a c n by simp
qed

section \<open>A handle that has not written\<close>

text \<open>
  C8. \<open>scanner_open\<close> gives the new handle the default separators, but it leaves
  \<open>current_token\<close> at \<open>NULL\<close> and stores the buffer start in \<open>next_char\<close>, which no
  other function reads. A handle opened on the buffer \<open>This is a test.\<close> therefore
  does not read \<open>This\<close> first: its first read dereferences \<open>NULL\<close>. So does the first
  read on a device that has never been written.
\<close>

theorem fresh_handle_read_faults:
  "buffer_text joined_state = Some ''This is a test.''
   \<and> files joined_state 4 = Some \<lparr>current_token = 0, next_char = 4096,
                                     separators = default_separators\<rparr>
   \<and> fst (scanner_read False 4 1023 joined_state) = Inl MemFault
   \<and> fst (scanner_read False 3 1023 (after_open 3 scanner_init)) = Inl MemFault"
proof -
  have a: "buffer_text joined_state = Some ''This is a test.''"
    by (simp add: joined_state_eq buffer_text_def NUL_def)
  have b: "fst (scanner_read False 4 1023 joined_state) = Inl MemFault"
    by (simp add: joined_state_eq read_defs)
  have c: "fst (scanner_read False 3 1023 (after_open 3 scanner_init)) = Inl MemFault"
    by (simp add: op_defs scanner_read_def strlen_def)
  show ?thesis using a b c by (simp add: joined_state_eq)
qed

section \<open>Handles left behind by another handle's write\<close>

text \<open>
  C1 as stated fails. The driver keeps no generation and a read does no staleness check.
  Handle 4 has read one token of \<open>x y\<close> when handle 3 writes \<open>abc\<close>. If the allocator
  places the new block at the old address, handle 4's next read continues from its old
  offset and delivers \<open>bc\<close>, which is not a token of the new buffer; if the block is
  placed elsewhere, the read dereferences the freed block.
\<close>

theorem stale_handle_not_resynchronised:
  "buffer_text (stale_state 4096) = Some ''abc''
   \<and> fst (scanner_read False 4 1023 (stale_state 4096)) = Inr (2, ''bc'')
   \<and> buffer_text (stale_state 8192) = Some ''abc''
   \<and> fst (scanner_read False 4 1023 (stale_state 8192)) = Inl MemFault"
  by (simp add: stale_state_eq buffer_text_def read_defs)

text \<open>
  C1 as amended. A successful write points the writing handle's own cursor at the start
  of the new buffer, so that handle's next read delivers the first token of the new
  text; every other handle's cursor and separators are left exactly as they were.
\<close>

theorem write_resets_only_the_writer:
  assumes "files s filp = Some f"
    and "choice \<noteq> 0"
    and "length buf < KMALLOC_MAX_SIZE"
    and "count < 2 ^ 31"
  shows
    "let s' = snd (scanner_write choice False filp buf s);
         text = strcpy buf;
         after = dropWhile (is_separator s filp) text;
         token = takeWhile (\<lambda>c. \<not> is_separator s filp c) after
     in fst (scanner_write choice False filp buf s) = Inr (length buf)
      \<and> buffer_text s' = Some text
      \<and> cursor_at s' filp 0
      \<and> (\<forall>g. g \<noteq> filp \<longrightarrow> files s' g = files s g)
      \<and> (after \<noteq> [] \<and> length token \<le> count \<longrightarrow>
            fst (scanner_read False filp count s') = Inr (int (length token), token))"
proof -
  define s' where "s' = s\<lparr>heap := Some (choice, buf @ [NUL]),
        scanner_device := (scanner_device s)\<lparr>data := choice\<rparr>,
        files := (files s)(filp \<mapsto> f\<lparr>current_token := choice\<rparr>)\<rparr>"
  define S where "S = (\<lambda>c. c \<in> set (strcpy (ScannerFile.separators f)))"
  define after where "after = dropWhile S (strcpy buf)"
  define token where "token = takeWhile (\<lambda>c. \<not> S c) after"
  have w: "scanner_write choice False filp buf s = (Inr (length buf), s')"
    unfolding s'_def using assms(1-3) by (intro scanner_write_ok) (simp_all add: copy_fails_def)
  have isS: "is_separator s filp = S" by (simp add: is_separator_def assms(1) S_def fun_eq_iff)
  have bt: "buffer_text s' = Some (strcpy buf)" by (rule written_view) (simp add: s'_def)
  have f': "files s' filp = Some (f\<lparr>current_token := choice\<rparr>)" by (simp add: s'_def)
  have cur: "current_token (f\<lparr>current_token := choice\<rparr>) = data (scanner_device s') + 0"
    by (simp add: s'_def)
  have ca: "cursor_at s' filp 0" by (simp add: cursor_at_def f' s'_def)
  have others: "\<forall>g. g \<noteq> filp \<longrightarrow> files s' g = files s g" by (simp add: s'_def)
  have tl: "length (strcpy buf) \<le> length buf" unfolding strcpy_def by (rule length_takeWhile_le)
  have small: "length (strcpy buf) < 2 ^ 31"
    using tl assms(3) by (simp add: KMALLOC_MAX_SIZE_def)
  have rd: "fst (scanner_read False filp count s') = Inr (int (length token), token)"
    if ne: "after \<noteq> []" and le: "length token \<le> count"
  proof -
    have nz: "0 \<noteq> length (strcpy buf)" using ne by (auto simp: after_def)
    have m: "min (int (length token)) (c_int count) = int (length token)"
      using le assms(4) by (simp add: c_int_small)
    show ?thesis
      using scanner_read_eq [OF bt f' cur _ small, of False count] nz m
      by (simp add: Let_def S_def [symmetric] after_def [symmetric] token_def [symmetric]
            copy_fails_def)
  qed
  show ?thesis
    unfolding Let_def isS w
    using bt ca others rd
    by (simp add: after_def [symmetric] token_def [symmetric])
qed

theorem write_resets_only_the_writer_witness:
  "files (after_open 3 scanner_init) 3
     = Some \<lparr>current_token = 0, next_char = 0, separators = default_separators\<rparr>
   \<and> (4096::nat) \<noteq> 0 \<and> length ''This is a test.'' < KMALLOC_MAX_SIZE \<and> (1023::nat) < 2 ^ 31
   \<and> fst (scanner_write 4096 False 3 ''This is a test.'' (after_open 3 scanner_init)) = Inr 15
   \<and> buffer_text test_state = Some ''This is a test.''
   \<and> cursor_at test_state 3 0
   \<and> fst (scanner_read False 3 1023 test_state) = Inr (4, ''This'')"
proof -
  have f: "files (after_open 3 scanner_init) 3
     = Some \<lparr>current_token = 0, next_char = 0, separators = default_separators\<rparr>"
    by (simp add: op_defs)
  have k: "length ''This is a test.'' < KMALLOC_MAX_SIZE" by (simp add: KMALLOC_MAX_SIZE_def)
  have s: "snd (scanner_write 4096 False 3 ''This is a test.'' (after_open 3 scanner_init))
             = test_state"
    by (simp add: test_state_def after_write_def)
  have sep: "is_separator (after_open 3 scanner_init) 3 = (\<lambda>c. c \<in> set default_separators)"
    by (simp add: is_separator_def f strcpy_def default_separators_def NUL_def fun_eq_iff)
  have c: "strcpy ''This is a test.'' = ''This is a test.''"
    by (simp add: strcpy_def NUL_def)
  have nz: "(4096::nat) \<noteq> 0" and cnt: "(1023::nat) < 2 ^ 31" by simp_all
  show ?thesis
    using write_resets_only_the_writer [OF f nz k cnt] f nz k cnt
    by (simp add: s sep c Let_def default_separators_def)
qed

section \<open>A write that fails\<close>

text \<open>
  C3 as stated fails. \<open>scanner_write\<close> frees the old buffer before it allocates the
  new one, so when the allocation or the copy from user space fails, the text
  \<open>This is a test.\<close> that the device held is gone.
\<close>

theorem failed_write_destroys_buffer:
  "buffer_text test_state = Some ''This is a test.''
   \<and> fst (scanner_write 0 False 3 ''xyz'' test_state) = Inl ENOMEM
   \<and> buffer_text (snd (scanner_write 0 False 3 ''xyz'' test_state)) = None
   \<and> fst (scanner_write 8192 True 3 ''xyz'' test_state) = Inl EFAULT
   \<and> buffer_text (snd (scanner_write 8192 True 3 ''xyz'' test_state)) = None"
  by (simp add: test_state_eq buffer_text_def scanner_write_def kmalloc_def
        KMALLOC_MAX_SIZE_def copy_fails_def kfree_def Let_def NUL_def)

text \<open>
  C3 as amended. When \<open>scanner_write\<close> fails (allocation failure or copy fault) no
  partial payload is installed and the device is left without a buffer: the previous
  payload was freed before the allocation and \<open>data\<close> is \<open>NULL\<close>. The cursor and the
  separators of every handle, the caller's included, are as before the call.
\<close>

theorem failed_write_leaves_no_buffer:
  assumes "files s filp = Some f"
    and "heap_owned s"
    and "fst (scanner_write choice user_fault filp buf s) = Inl e"
  shows
    "let s' = snd (scanner_write choice user_fault filp buf s)
     in (e = ENOMEM \<or> e = EFAULT)
      \<and> heap s' = None \<and> data (scanner_device s') = 0 \<and> buffer_text s' = None
      \<and> files s' = files s
      \<and> ScannerDevice.separators (scanner_device s') = ScannerDevice.separators (scanner_device s)"
  using assms
  by (auto simp: scanner_write_def Let_def heap_owned_def kfree_def buffer_text_def
        split: option.splits if_splits prod.splits)

theorem failed_write_leaves_no_buffer_witness:
  "files test_state 3 = Some \<lparr>current_token = 4096, next_char = 0,
                                separators = default_separators\<rparr>
   \<and> heap_owned test_state
   \<and> fst (scanner_write 8192 True 3 ''xyz'' test_state) = Inl EFAULT
   \<and> heap (snd (scanner_write 8192 True 3 ''xyz'' test_state)) = None
   \<and> files (snd (scanner_write 8192 True 3 ''xyz'' test_state)) = files test_state"
proof -
  have a: "files test_state 3 = Some \<lparr>current_token = 4096, next_char = 0,
                                separators = default_separators\<rparr>"
    by (simp add: test_state_eq)
  have b: "heap_owned test_state" by (simp add: test_state_eq heap_owned_def)
  have c: "fst (scanner_write 8192 True 3 ''xyz'' test_state) = Inl EFAULT"
    by (simp add: test_state_eq scanner_write_def kmalloc_def
        KMALLOC_MAX_SIZE_def copy_fails_def kfree_def Let_def)
  from failed_write_leaves_no_buffer [OF a b c] a b c show ?thesis by (simp add: Let_def)
qed

section \<open>Reconfiguring separators\<close>

text \<open>
  C7. \<open>scanner_ioctl\<close> changes nothing but the calling handle's separator string:
  the shared buffer and every other handle's cursor and separators are untouched, and the
  caller's cursor is kept. Whenever the call fails, and in particular when the new
  separator bytes cannot all be copied from user space, the whole state, the caller's
  previous separators included, is unchanged.
\<close>

theorem ioctl_changes_only_the_callers_separators:
  "let r = fst (scanner_ioctl choice user_mem filp cmd arg s);
       s' = snd (scanner_ioctl choice user_mem filp cmd arg s)
   in scanner_device s' = scanner_device s \<and> heap s' = heap s
    \<and> (\<forall>g. g \<noteq> filp \<longrightarrow> files s' g = files s g)
    \<and> (\<forall>e. r = Inl e \<longrightarrow> s' = s)
    \<and> (copy_from_user user_mem arg arg = None \<longrightarrow> s' = s)
    \<and> (\<forall>v. r = Inr v \<longrightarrow>
          (\<exists>f new_separators. files s filp = Some f
             \<and> copy_from_user user_mem arg arg = Some new_separators
             \<and> files s' filp = Some (f\<lparr>ScannerFile.separators := new_separators\<rparr>)))"
  by (auto simp: scanner_ioctl_def Let_def split: option.splits if_splits)

theorem ioctl_changes_only_the_callers_separators_witness:
  "(4::nat) \<noteq> 3
   \<and> fst (scanner_ioctl 8192 comma_mem 3 SCANNER_SET_SEPARATORS 2 joined_state) = Inr 0
   \<and> files (snd (scanner_ioctl 8192 comma_mem 3 SCANNER_SET_SEPARATORS 2 joined_state)) 4
       = files joined_state 4
   \<and> files (snd (scanner_ioctl 8192 comma_mem 3 SCANNER_SET_SEPARATORS 2 joined_state)) 3
       = Some \<lparr>current_token = 4096, next_char = 0, separators = '',;''\<rparr>
   \<and> snd (scanner_ioctl 8192 (\<lambda>a. None) 3 SCANNER_SET_SEPARATORS 2 joined_state) = joined_state"
proof -
  have r: "fst (scanner_ioctl 8192 comma_mem 3 SCANNER_SET_SEPARATORS 2 joined_state) = Inr 0"
    by (simp add: joined_state_eq ioctl_defs)
  have c: "copy_from_user comma_mem 2 2 = Some '',;''"
    by (simp add: copy_from_user_def comma_mem_def upt_0_2)
  have n: "copy_from_user (\<lambda>a. None) 2 2 = None"
    by (simp add: copy_from_user_def upt_0_2)
  have f: "files joined_state 3 = Some \<lparr>current_token = 4096, next_char = 0,
                       separators = default_separators\<rparr>"
    by (simp add: joined_state_eq)
  show ?thesis
    using ioctl_changes_only_the_callers_separators [of 8192 comma_mem 3 SCANNER_SET_SEPARATORS 2 joined_state]
      ioctl_changes_only_the_callers_separators [of 8192 "\<lambda>a. None" 3 SCANNER_SET_SEPARATORS 2 joined_state]
    by (simp add: Let_def r c n f)
qed

section \<open>Cursor bounds\<close>

text \<open>
  C10 as stated fails. Handle 4 has read \<open>hello world\<close> to its end (offset 11) when
  handle 3 replaces the buffer by \<open>hi\<close> at the same address. Handle 4's next read
  succeeds, returning 0, and leaves its cursor at offset 11, beyond the 2 bytes of the
  buffer.
\<close>

theorem stale_cursor_beyond_buffer_end:
  "buffer_text overrun_state = Some ''hi''
   \<and> cursor_at overrun_state 4 11
   \<and> scanner_read False 4 1023 overrun_state = (Inr (0, []), overrun_state)
   \<and> \<not> (11 \<le> length ''hi'')"
  by (simp add: overrun_state_eq buffer_text_def cursor_at_def read_defs)

text \<open>
  C10 as amended. For every handle, a successful read never moves the cursor backwards,
  and it leaves the cursor at or before the end of the buffer text whenever it was there
  before the read, as it is after the handle's own write; a read changes neither the
  buffer nor any other handle.
\<close>

theorem read_cursor_monotone_and_bounded:
  assumes "files s filp = Some f"
    and "scanner_read user_fault filp count s = (Inr r, s')"
  shows "\<exists>f' n. files s' filp = Some f'
           \<and> strlen (heap s) (data (scanner_device s)) = Some n
           \<and> current_token f \<le> current_token f'
           \<and> current_token f' \<le> max (current_token f) (data (scanner_device s) + n)
           \<and> heap s' = heap s \<and> scanner_device s' = scanner_device s
           \<and> (\<forall>g. g \<noteq> filp \<longrightarrow> files s' g = files s g)
           \<and> (\<forall>choice fault buf m s''.
                 scanner_write choice fault filp buf s = (Inr m, s'') \<longrightarrow> cursor_at s'' filp 0)"
proof -
  have wr: "\<forall>choice fault buf m s''.
                 scanner_write choice fault filp buf s = (Inr m, s'') \<longrightarrow> cursor_at s'' filp 0"
    by (blast intro: write_resets_writer)
  from assms(2) obtain n where n: "strlen (heap s) (data (scanner_device s)) = Some n"
    by (auto simp: scanner_read_def assms(1) split: option.splits)
  define e where "e = data (scanner_device s) + n"
  show ?thesis
  proof (cases "current_token f \<ge> e")
    case True
    then have "s' = s" using assms by (simp add: scanner_read_def n e_def)
    then show ?thesis using assms(1) n wr by simp
  next
    case False
    from assms(2) False obtain ts te where
      ts: "skip_separators (heap s) (ScannerFile.separators f) e (current_token f) = Some ts"
      and te: "find_token_end (heap s) (ScannerFile.separators f) e ts = Some te"
      and s': "s' = s\<lparr>files := (files s)(filp \<mapsto> f\<lparr>current_token := te\<rparr>)\<rparr>"
      by (auto simp: scanner_read_def assms(1) n e_def Let_def split: option.splits if_splits)
    from skip_separators_bounds [OF ts] find_token_end_bounds [OF te]
    have "current_token f \<le> te" "te \<le> max (current_token f) e" by auto
    then show ?thesis using n wr by (simp add: s' e_def)
  qed
qed

theorem read_cursor_monotone_and_bounded_witness:
  "files test_state 3
     = Some \<lparr>current_token = 4096, next_char = 0, separators = default_separators\<rparr>
   \<and> scanner_read False 3 1023 test_state = (Inr (4, ''This''), set_cursor 3 4100 test_state)
   \<and> (\<exists>f' n. files (set_cursor 3 4100 test_state) 3 = Some f'
          \<and> strlen (heap test_state) (data (scanner_device test_state)) = Some n
          \<and> 4096 \<le> current_token f'
          \<and> current_token f' \<le> max 4096 (data (scanner_device test_state) + n))"
proof -
  have f: "files test_state 3
     = Some \<lparr>current_token = 4096, next_char = 0, separators = default_separators\<rparr>"
    by (simp add: test_state_eq)
  from read_cursor_monotone_and_bounded [OF f test_read_1] obtain f' n where
    "files (set_cursor 3 4100 test_state) 3 = Some f'"
    "strlen (heap test_state) (data (scanner_device test_state)) = Some n"
    "4096 \<le> current_token f'"
    "current_token f' \<le> max 4096 (data (scanner_device test_state) + n)"
    by auto
  then show ?thesis using f test_read_1 by blast
qed

end
